theory Spec2Isabelle
  imports Complex_Main
begin

section \<open>The Pomodoro session controller (pomodoro\_logic.py)\<close>

text \<open>
  The class \<open>PomodoroTimer\<close> is embedded as a record of its fields together with
  four pieces of the environment that its methods act on: the wall clock read by
  \<open>time.ctime()\<close> and advanced by \<open>time.sleep(1)\<close>, the sequence of Qt signals emitted so
  far, the number of \<open>Thread(target=self.run_timer)\<close> objects that have been started
  and whose body has not run yet, and the module's \<open>timer_lock\<close>, which is held exactly
  while a thread is inside the \<open>with timer_lock\<close> block of \<open>run_timer\<close>.

  Every method is a function from the state to an outcome. An outcome carries the state
  in every case, because a Python exception leaves behind every assignment made before
  it was raised, and so does a call that has not returned because it waits for
  \<open>timer_lock\<close>.

  Each method, and each iteration of the countdown loop, is taken as one atomic step.
  The quotient computed by \<open>update_time\<close> is a Python float; here it is the exact
  rational quotient of the two integers.
\<close>

subsection \<open>Data\<close>

datatype py_error = ZeroDivisionError | TypeError

datatype signal =
    update_signal string rat
  | finish_signal
  | session_change_signal string
  | reset_goal_signal
  | notify_user_signal

record session =
  entry_type :: string
  entry_timestamp :: nat
  entry_goal :: string

record timer =
  work_duration :: int
  short_break_duration :: int
  long_break_duration :: int
  is_running :: bool
  goal :: string
  session_history :: "session list"
  current_time :: int
  is_work_period :: bool
  session_count :: int
  clock :: nat
  emitted :: "signal list"
  pending_threads :: nat
  timer_lock :: bool

text \<open>
  \<open>Ok\<close>: the call has returned. \<open>Raised\<close>: an exception has left it. \<open>Blocked\<close>: the call
  has not returned, it waits to acquire \<open>timer_lock\<close>.
\<close>

datatype outcome = Ok timer | Raised py_error timer | Blocked timer

definition and_then :: "outcome \<Rightarrow> (timer \<Rightarrow> outcome) \<Rightarrow> outcome" where
  "and_then r f =
     (case r of Ok t \<Rightarrow> f t | Raised e t \<Rightarrow> Raised e t | Blocked t \<Rightarrow> Blocked t)"

definition state_of :: "outcome \<Rightarrow> timer" where
  "state_of r = (case r of Ok t \<Rightarrow> t | Raised e t \<Rightarrow> t | Blocked t \<Rightarrow> t)"

subsection \<open>Environment: signals, threads, time\<close>

definition emit :: "signal \<Rightarrow> timer \<Rightarrow> timer" where
  "emit sg t = t\<lparr>emitted := emitted t @ [sg]\<rparr>"

definition thread_start :: "timer \<Rightarrow> timer" where
  "thread_start t = t\<lparr>pending_threads := pending_threads t + 1\<rparr>"

definition sleep_1 :: "timer \<Rightarrow> timer" where
  "sleep_1 t = t\<lparr>clock := clock t + 1\<rparr>"

subsection \<open>Formatting \<open>mm:ss\<close>\<close>

definition digit_char :: "nat \<Rightarrow> char" where
  "digit_char d = ''0123456789'' ! d"

fun str_nat :: "nat \<Rightarrow> string" where
  "str_nat n = (if n < 10 then [digit_char n] else str_nat (n div 10) @ [digit_char (n mod 10)])"

declare str_nat.simps [simp del]

definition str_int :: "int \<Rightarrow> string" where
  "str_int i = (if i < 0 then CHR ''-'' # str_nat (nat (- i)) else str_nat (nat i))"

text \<open>
  The format specification \<open>02d\<close> pads with zeros to a width of two characters, the sign
  included: only the one-character results \<open>0\<close> to \<open>9\<close> are padded.
\<close>

definition format_02d :: "int \<Rightarrow> string" where
  "format_02d i = (if 0 \<le> i \<and> i < 10 then CHR ''0'' # str_int i else str_int i)"

definition format_duration :: "int \<Rightarrow> string" where
  "format_duration duration =
     (let mins = duration div 60; secs = duration mod 60
      in format_02d mins @ '':'' @ format_02d secs)"

subsection \<open>Methods\<close>

definition update_time :: "timer \<Rightarrow> outcome" where
  "update_time t =
     (let mins = current_time t div 60;
          secs = current_time t mod 60;
          time_str = format_02d mins @ '':'' @ format_02d secs
      in if is_work_period t then
           (if work_duration t = 0 then Raised ZeroDivisionError t
            else Ok (emit (update_signal time_str
                   (of_int (work_duration t - current_time t) / of_int (work_duration t))) t))
         else
           (let current_break_duration =
                  (if session_count t mod 4 \<noteq> 0 then short_break_duration t
                   else long_break_duration t)
            in if current_break_duration = 0 then Raised ZeroDivisionError t
               else Ok (emit (update_signal time_str
                      (1 - of_int (current_time t) / of_int current_break_duration)) t)))"

definition reset :: "timer \<Rightarrow> outcome" where
  "reset t =
     update_time (t\<lparr>current_time := work_duration t, session_count := 0,
                    is_work_period := True\<rparr>)"

definition init :: "int \<Rightarrow> int \<Rightarrow> int \<Rightarrow> outcome" where
  "init w s l =
     reset \<lparr>work_duration = w, short_break_duration = s, long_break_duration = l,
            is_running = False, goal = [], session_history = [], current_time = 0,
            is_work_period = True, session_count = 0, clock = 0, emitted = [],
            pending_threads = 0, timer_lock = False\<rparr>"

definition set_durations :: "int \<Rightarrow> int \<Rightarrow> int \<Rightarrow> timer \<Rightarrow> outcome" where
  "set_durations w s l t =
     reset (t\<lparr>work_duration := w, short_break_duration := s, long_break_duration := l\<rparr>)"

text \<open>
  The last statement of \<open>start_timer\<close>, \<open>with timer_lock: Thread(...).start()\<close>. The caller
  is never the thread that holds the lock. While a thread inside \<open>run_timer\<close> holds it, the
  caller waits; when the lock is free, the caller takes it, starts the thread and gives it
  back, all in this step.
\<close>

definition start_thread_with_lock :: "timer \<Rightarrow> outcome" where
  "start_thread_with_lock t = (if timer_lock t then Blocked t else Ok (thread_start t))"

definition start_timer :: "string \<Rightarrow> timer \<Rightarrow> outcome" where
  "start_timer g t =
     (let t1 = t\<lparr>is_running := True, goal := g\<rparr>;
          t2 = t1\<lparr>session_history := session_history t1 @
                 [\<lparr>entry_type = ''Work'', entry_timestamp = clock t1, entry_goal = goal t1\<rparr>]\<rparr>;
          t3 = emit (session_change_signal ''Work'') t2
      in and_then (update_time t3) start_thread_with_lock)"

text \<open>
  \<open>toggle\<close> calls \<open>self.start_timer()\<close> without the required positional argument
  \<open>goal\<close>: the call raises \<open>TypeError\<close> before the body of \<open>start_timer\<close> runs.
\<close>

definition toggle :: "timer \<Rightarrow> outcome" where
  "toggle t =
     (let t1 = t\<lparr>is_running := \<not> is_running t\<rparr>
      in if is_running t1 then Raised TypeError t1 else Ok t1)"

definition switch_period :: "timer \<Rightarrow> outcome" where
  "switch_period t =
     (let t1 = t\<lparr>is_work_period := \<not> is_work_period t\<rparr>;
          t2 = t1\<lparr>session_count := session_count t1 + 1\<rparr>;
          session_type = (if is_work_period t2 then ''Work'' else ''Break'');
          t3 = t2\<lparr>session_history := session_history t2 @
                 [\<lparr>entry_type = session_type, entry_timestamp = clock t2,
                   entry_goal = goal t2\<rparr>]\<rparr>;
          t4 = (if \<not> is_work_period t3
                then t3\<lparr>current_time :=
                       (if session_count t3 mod 4 \<noteq> 0 then short_break_duration t3
                        else long_break_duration t3)\<rparr>
                else t3\<lparr>current_time := work_duration t3\<rparr>)
      in and_then (update_time t4) (\<lambda>t5.
           let t6 = (if is_running t5 then thread_start t5 else t5);
               t7 = emit (session_change_signal session_type) t6
           in Ok (if is_work_period t7 then emit reset_goal_signal t7 else t7)))"

text \<open>One iteration of the \<open>while\<close> loop of \<open>run_timer\<close>.\<close>

definition tick :: "timer \<Rightarrow> outcome" where
  "tick t =
     (let t1 = sleep_1 t;
          t2 = t1\<lparr>current_time := current_time t1 - 1\<rparr>;
          t3 = (if current_time t2 = 60 \<and> \<not> is_work_period t2
                then emit notify_user_signal t2 else t2)
      in update_time t3)"

function countdown :: "timer \<Rightarrow> outcome" where
  "countdown t =
     (if 0 < current_time t \<and> is_running t
      then (case tick t of Ok t' \<Rightarrow> countdown t' | Raised e t' \<Rightarrow> Raised e t'
            | Blocked t' \<Rightarrow> Blocked t')
      else Ok t)"
  by pat_completeness auto
termination
  by (relation "measure (\<lambda>t. nat (current_time t))")
    (auto simp: tick_def update_time_def emit_def sleep_1_def Let_def split: if_splits)

declare countdown.simps [simp del]

text \<open>
  The body of \<open>run_timer\<close> inside its \<open>with timer_lock\<close> block, run by the thread that
  holds the lock: the loop, from the state the timer is in, and the statements after it.
\<close>

definition run_timer :: "timer \<Rightarrow> outcome" where
  "run_timer t =
     and_then (countdown t) (\<lambda>t1.
       if current_time t1 = 0 \<and> is_running t1
       then switch_period (emit finish_signal t1)
       else Ok t1)"

text \<open>
  A started thread runs \<open>run_timer\<close> once. All threads take the module's lock for the
  whole of \<open>run_timer\<close>, so their bodies run one after the other: a pending thread stays
  pending while another thread holds the lock, and when it gets the lock it keeps it until
  the end of \<open>run_timer\<close>, where the lock is free again. An exception that leaves the
  thread's target ends that thread only and the state stays as it was mutated.
\<close>

definition run_thread :: "timer \<Rightarrow> timer" where
  "run_thread t =
     (if pending_threads t = 0 \<or> timer_lock t then t
      else state_of (run_timer (t\<lparr>pending_threads := pending_threads t - 1\<rparr>)))"

text \<open>
  The same thread in smaller steps, for the states in which it is inside \<open>run_timer\<close>:
  a pending thread takes the free lock; it performs loop iterations (\<open>tick\<close>); and it runs
  the rest of \<open>run_timer\<close> from the state the timer is in and leaves the \<open>with\<close> block,
  which gives the lock back also when an exception ends the thread.
\<close>

definition run_timer_enter :: "timer \<Rightarrow> timer" where
  "run_timer_enter t = t\<lparr>pending_threads := pending_threads t - 1, timer_lock := True\<rparr>"

definition holder_finishes :: "timer \<Rightarrow> timer" where
  "holder_finishes t = (state_of (run_timer t))\<lparr>timer_lock := False\<rparr>"

fun run_threads :: "nat \<Rightarrow> timer \<Rightarrow> timer" where
  "run_threads 0 t = t"
| "run_threads (Suc n) t = run_threads n (run_thread t)"

subsection \<open>Notions used by the properties\<close>

text \<open>
  The duration of the active period: the work duration in a work period, otherwise the
  break duration that \<open>switch_period\<close> and \<open>update_time\<close> select from \<open>session_count\<close>.
\<close>

definition active_duration :: "timer \<Rightarrow> int" where
  "active_duration t =
     (if is_work_period t then work_duration t
      else if session_count t mod 4 \<noteq> 0 then short_break_duration t
      else long_break_duration t)"

text \<open>
  The elapsed fraction as the specification words it: \<open>(workDuration - currentTime) /
  workDuration\<close> in a work period, \<open>1 - currentTime / activeBreakDuration\<close> in a break.
\<close>

definition elapsed_fraction :: "timer \<Rightarrow> rat" where
  "elapsed_fraction t =
     (if is_work_period t
      then of_int (work_duration t - current_time t) / of_int (work_duration t)
      else 1 - of_int (current_time t) / of_int (active_duration t))"

text \<open>Example states: the constructor's defaults and the durations of the worked example.\<close>

definition default_timer :: timer where
  "default_timer = state_of (init 1500 300 900)"

definition example_timer :: timer where
  "example_timer = state_of (init 2 1 3)"

text \<open>
  A timer paused in the middle of its first work period: constructed with the defaults,
  started, its countdown thread has begun and has completed one iteration, and then
  \<open>toggle\<close> was called while it was running, after which the thread has left
  \<open>run_timer\<close>.
\<close>

definition paused_timer :: timer where
  "paused_timer =
     holder_finishes (state_of (toggle (state_of (tick
       (run_timer_enter (state_of (start_timer ''write spec'' default_timer)))))))"

text \<open>A running timer: the worked example just after \<open>start_timer\<close>.\<close>

definition running_timer :: timer where
  "running_timer = state_of (start_timer ''write spec'' example_timer)"


text \<open>
  A timer set to one minute for every period, as the settings dialog allows, just after
  \<open>start_timer\<close>; and a timer whose short break lasts 61 seconds, at the start of its
  first break.
\<close>

definition minute_timer :: timer where
  "minute_timer = state_of (start_timer ''rest'' (state_of (init 60 60 60)))"

definition break_timer :: timer where
  "break_timer = run_threads 1 (state_of (start_timer ''rest'' (state_of (init 1 61 900))))"

text \<open>
  Period transitions applied one after the other, stopping at the first exception.
\<close>

fun switch_periods :: "nat \<Rightarrow> timer \<Rightarrow> outcome" where
  "switch_periods 0 t = Ok t"
| "switch_periods (Suc n) t = and_then (switch_period t) (switch_periods n)"

text \<open>
  The state that \<open>switch_period\<close> hands to \<open>update_time\<close>, and the state it returns
  when \<open>update_time\<close> does not raise.
\<close>

definition switched :: "timer \<Rightarrow> timer" where
  "switched t =
     t\<lparr>is_work_period := \<not> is_work_period t,
       session_count := session_count t + 1,
       session_history := session_history t @
         [\<lparr>entry_type = (if is_work_period t then ''Break'' else ''Work''),
           entry_timestamp = clock t, entry_goal = goal t\<rparr>],
       current_time :=
         (if is_work_period t
          then (if (session_count t + 1) mod 4 \<noteq> 0 then short_break_duration t
                else long_break_duration t)
          else work_duration t)\<rparr>"

definition after_switch :: "timer \<Rightarrow> timer" where
  "after_switch t =
     (switched t)\<lparr>
       emitted := emitted t @
         [update_signal (format_duration (current_time (switched t)))
            (elapsed_fraction (switched t)),
          session_change_signal (if is_work_period t then ''Break'' else ''Work'')] @
         (if is_work_period t then [] else [reset_goal_signal]),
       pending_threads := pending_threads t + (if is_running t then 1 else 0)\<rparr>"

text \<open>
  The state that one loop iteration hands to \<open>update_time\<close>, and the state the
  iteration returns when \<open>update_time\<close> does not raise.
\<close>

definition ticked :: "timer \<Rightarrow> timer" where
  "ticked t =
     t\<lparr>clock := clock t + 1, current_time := current_time t - 1,
       emitted := emitted t @
         (if current_time t = 61 \<and> \<not> is_work_period t then [notify_user_signal] else [])\<rparr>"

definition after_tick :: "timer \<Rightarrow> timer" where
  "after_tick t =
     emit (update_signal (format_duration (current_time t - 1)) (elapsed_fraction (ticked t)))
       (ticked t)"

text \<open>
  Two states of the same period: everything but \<open>current_time\<close>, the clock and the
  emitted signals agrees.
\<close>

definition same_period :: "timer \<Rightarrow> timer \<Rightarrow> bool" where
  "same_period t t' =
     (work_duration t' = work_duration t \<and> short_break_duration t' = short_break_duration t \<and>
      long_break_duration t' = long_break_duration t \<and> is_running t' = is_running t \<and>
      goal t' = goal t \<and> session_history t' = session_history t \<and>
      is_work_period t' = is_work_period t \<and> session_count t' = session_count t \<and>
      pending_threads t' = pending_threads t \<and> timer_lock t' = timer_lock t)"

text \<open>
  The elapsed fractions carried by the \<open>update_signal\<close>s of a sequence of signals.
\<close>

fun fractions :: "signal list \<Rightarrow> rat list" where
  "fractions [] = []"
| "fractions (update_signal s f # es) = f # fractions es"
| "fractions (e # es) = fractions es"

text \<open>
  Work periods have an even \<open>session_count\<close>, breaks an odd one; and a break has been
  given the short duration.
\<close>

definition parity_inv :: "timer \<Rightarrow> bool" where
  "parity_inv t = (is_work_period t = even (session_count t))"

definition break_is_short :: "timer \<Rightarrow> bool" where
  "break_is_short t = (is_work_period t \<or> 
      (session_count t mod 4 \<noteq> 0 \<and> current_time t = short_break_duration t))"

text \<open>
  The bounds on \<open>current_time\<close>, with the three durations positive.
\<close>

definition timer_inv :: "timer \<Rightarrow> bool" where
  "timer_inv t =
     (0 < work_duration t \<and> 0 < short_break_duration t \<and> 0 < long_break_duration t \<and>
      0 \<le> current_time t \<and> current_time t \<le> active_duration t)"

text \<open>
  The states a timer can reach: it is constructed with positive durations, and then any
  of the methods is called (\<open>set_durations\<close> with positive durations, as its caller
  clamps them), a thread performs one loop iteration or the period transition that
  follows the loop, or a pending thread runs \<open>run_timer\<close> to its end. A pending thread
  may take the free lock, the thread that holds the lock may give it back, and a call of
  \<open>start_timer\<close> that waited for the lock may go on when the lock is free. A state left
  behind by an exception or by a waiting call counts as reached.
\<close>

inductive reachable :: "timer \<Rightarrow> bool" where
  r_init: "0 < w \<Longrightarrow> 0 < s \<Longrightarrow> 0 < l \<Longrightarrow> reachable (state_of (init w s l))"
| r_reset: "reachable t \<Longrightarrow> reachable (state_of (reset t))"
| r_set_durations:
    "reachable t \<Longrightarrow> 0 < w \<Longrightarrow> 0 < s \<Longrightarrow> 0 < l \<Longrightarrow>
     reachable (state_of (set_durations w s l t))"
| r_start_timer: "reachable t \<Longrightarrow> reachable (state_of (start_timer g t))"
| r_toggle: "reachable t \<Longrightarrow> reachable (state_of (toggle t))"
| r_tick:
    "reachable t \<Longrightarrow> 0 < current_time t \<Longrightarrow> is_running t \<Longrightarrow>
     reachable (state_of (tick t))"
| r_switch_period:
    "reachable t \<Longrightarrow> current_time t = 0 \<Longrightarrow> is_running t \<Longrightarrow>
     reachable (state_of (switch_period (emit finish_signal t)))"
| r_run_thread: "reachable t \<Longrightarrow> reachable (run_thread t)"
| r_run_timer_enter:
    "reachable t \<Longrightarrow> 0 < pending_threads t \<Longrightarrow> \<not> timer_lock t \<Longrightarrow>
     reachable (run_timer_enter t)"
| r_run_timer_leave:
    "reachable t \<Longrightarrow> timer_lock t \<Longrightarrow> reachable (t\<lparr>timer_lock := False\<rparr>)"
| r_start_thread_with_lock:
    "reachable t \<Longrightarrow> \<not> timer_lock t \<Longrightarrow> reachable (state_of (start_thread_with_lock t))"

section \<open>Properties\<close>

subsection \<open>Auxiliary facts: \<open>update_time\<close>, \<open>reset\<close>, \<open>start_timer\<close>\<close>

lemma update_time_Ok:
  "active_duration t \<noteq> 0 \<Longrightarrow>
   update_time t =
     Ok (emit (update_signal (format_duration (current_time t)) (elapsed_fraction t)) t)"
  by (auto simp: update_time_def active_duration_def elapsed_fraction_def
      format_duration_def Let_def split: if_splits)

lemma update_time_Raised:
  "active_duration t = 0 \<Longrightarrow> update_time t = Raised ZeroDivisionError t"
  by (auto simp: update_time_def active_duration_def Let_def split: if_splits)

lemma reset_state:
  "state_of (reset t) = 
    (let t1 = t\<lparr>current_time := work_duration t, session_count := 0, is_work_period := True\<rparr>
     in if work_duration t = 0 then t1
        else t1\<lparr>emitted := emitted t @ [update_signal (format_duration (work_duration t)) 0]\<rparr>)"
proof (cases "work_duration t = 0")
  case True
  then have "active_duration (t\<lparr>current_time := work_duration t, session_count := 0, is_work_period := True\<rparr>) = 0"
    by (simp add: active_duration_def)
  from update_time_Raised [OF this] True show ?thesis
    by (simp add: reset_def state_of_def)
next
  case False
  then have "active_duration (t\<lparr>current_time := work_duration t, session_count := 0, is_work_period := True\<rparr>) \<noteq> 0"
    by (simp add: active_duration_def)
  from update_time_Ok [OF this] False show ?thesis
    by (simp add: reset_def state_of_def emit_def elapsed_fraction_def)
qed

lemma start_timer_outcome:
  assumes "active_duration t \<noteq> 0"
  shows "start_timer g t =
     start_thread_with_lock
       (t\<lparr>is_running := True, goal := g,
          session_history := session_history t @
            [\<lparr>entry_type = ''Work'', entry_timestamp = clock t, entry_goal = g\<rparr>],
          emitted := emitted t @
            [session_change_signal ''Work'',
             update_signal (format_duration (current_time t)) (elapsed_fraction t)]\<rparr>)"
proof -
  let ?t3 = "emit (session_change_signal ''Work'')
     (t\<lparr>is_running := True, goal := g,
        session_history := session_history t @
          [\<lparr>entry_type = ''Work'', entry_timestamp = clock t, entry_goal = g\<rparr>]\<rparr>)"
  have a: "active_duration ?t3 \<noteq> 0"
    using assms by (auto simp: active_duration_def emit_def split: if_splits)
  have "start_timer g t = and_then (update_time ?t3) start_thread_with_lock"
    by (simp add: start_timer_def Let_def)
  also have "\<dots> = start_thread_with_lock (emit (update_signal (format_duration (current_time ?t3))
        (elapsed_fraction ?t3)) ?t3)"
    by (simp add: update_time_Ok [OF a] and_then_def)
  finally show ?thesis
    by (simp add: emit_def elapsed_fraction_def active_duration_def)
qed

lemma start_timer_state:
  "goal (state_of (start_timer g t)) = g \<and>
   session_history (state_of (start_timer g t)) =
     session_history t @ [\<lparr>entry_type = ''Work'', entry_timestamp = clock t, entry_goal = g\<rparr>]"
proof -
  let ?t3 = "emit (session_change_signal ''Work'')
     (t\<lparr>is_running := True, goal := g,
        session_history := session_history t @
          [\<lparr>entry_type = ''Work'', entry_timestamp = clock t, entry_goal = g\<rparr>]\<rparr>)"
  have eq: "start_timer g t = and_then (update_time ?t3) start_thread_with_lock"
    by (simp add: start_timer_def Let_def)
  show ?thesis
  proof (cases "active_duration ?t3 = 0")
    case True
    show ?thesis
      unfolding eq update_time_Raised [OF True]
      by (simp add: and_then_def state_of_def emit_def)
  next
    case False
    show ?thesis
      unfolding eq update_time_Ok [OF False]
      by (simp add: and_then_def state_of_def emit_def thread_start_def
          start_thread_with_lock_def)
  qed
qed

subsection \<open>Auxiliary facts: period transitions\<close>

lemma switch_period_switched:
  "switch_period t =
     and_then (update_time (switched t)) (\<lambda>t5.
       let t6 = (if is_running t5 then thread_start t5 else t5);
           t7 = emit (session_change_signal (if is_work_period t then ''Break'' else ''Work'')) t6
       in Ok (if is_work_period t7 then emit reset_goal_signal t7 else t7))"
  by (cases "is_work_period t") (simp_all add: switch_period_def switched_def Let_def)

lemma switch_period_Raised:
  assumes "active_duration (switched t) = 0"
  shows "switch_period t = Raised ZeroDivisionError (switched t)"
  unfolding switch_period_switched update_time_Raised [OF assms]
  by (simp add: and_then_def)

lemma switch_period_Ok:
  assumes "active_duration (switched t) \<noteq> 0"
  shows "switch_period t = Ok (after_switch t)"
proof -
  have "switch_period t =
     (let t5 = emit (update_signal (format_duration (current_time (switched t)))
                 (elapsed_fraction (switched t))) (switched t);
          t6 = (if is_running t5 then thread_start t5 else t5);
          t7 = emit (session_change_signal (if is_work_period t then ''Break'' else ''Work'')) t6
      in Ok (if is_work_period t7 then emit reset_goal_signal t7 else t7))"
    unfolding switch_period_switched update_time_Ok [OF assms]
    by (simp add: and_then_def)
  also have "\<dots> = Ok (after_switch t)"
    by (simp add: Let_def emit_def thread_start_def after_switch_def switched_def)
  finally show ?thesis .
qed

lemma switch_period_state:
  "state_of (switch_period t) =
     (if active_duration (switched t) = 0 then switched t else after_switch t)"
  by (simp add: switch_period_Ok switch_period_Raised state_of_def)

lemma switched_fields [simp]:
  "is_work_period (switched t) = (\<not> is_work_period t)"
  "session_count (switched t) = session_count t + 1"
  "work_duration (switched t) = work_duration t"
  "short_break_duration (switched t) = short_break_duration t"
  "long_break_duration (switched t) = long_break_duration t"
  "is_running (switched t) = is_running t"
  "goal (switched t) = goal t"
  "clock (switched t) = clock t"
  "emitted (switched t) = emitted t"
  "pending_threads (switched t) = pending_threads t"
  by (simp_all add: switched_def)

lemma after_switch_fields [simp]:
  "is_work_period (after_switch t) = (\<not> is_work_period t)"
  "session_count (after_switch t) = session_count t + 1"
  "work_duration (after_switch t) = work_duration t"
  "short_break_duration (after_switch t) = short_break_duration t"
  "long_break_duration (after_switch t) = long_break_duration t"
  "is_running (after_switch t) = is_running t"
  "goal (after_switch t) = goal t"
  "clock (after_switch t) = clock t"
  "current_time (after_switch t) = current_time (switched t)"
  "session_history (after_switch t) = session_history (switched t)"
  by (simp_all add: after_switch_def)

lemma switched_current_time:
  "current_time (switched t) = active_duration (switched t)"
  by (simp add: switched_def active_duration_def)

lemma switched_history:
  "session_history (switched t) = session_history t @
     [\<lparr>entry_type = (if is_work_period t then ''Break'' else ''Work''),
       entry_timestamp = clock t, entry_goal = goal t\<rparr>]"
  by (simp add: switched_def)

lemma switch_period_history:
  "goal (state_of (switch_period t)) = goal t \<and>
   session_history (state_of (switch_period t)) =
     session_history t @
       [\<lparr>entry_type = (if is_work_period t then ''Break'' else ''Work''),
         entry_timestamp = clock t, entry_goal = goal t\<rparr>]"
  by (simp add: switch_period_state switched_history)

subsection \<open>Auxiliary facts: the countdown loop\<close>

lemma same_period_refl [simp]: "same_period t t"
  by (simp add: same_period_def)

lemma same_period_trans: "same_period a b \<Longrightarrow> same_period b c \<Longrightarrow> same_period a c"
  by (simp add: same_period_def)

lemma same_period_active_duration:
  "same_period t t' \<Longrightarrow> active_duration t' = active_duration t"
  by (simp add: same_period_def active_duration_def)

lemma tick_ticked: "tick t = update_time (ticked t)"
  by (auto simp: tick_def ticked_def sleep_1_def emit_def Let_def)

lemma same_period_ticked [simp]: "same_period t (ticked t)"
  by (simp add: same_period_def ticked_def)

lemma same_period_after_tick [simp]: "same_period t (after_tick t)"
  by (simp add: same_period_def after_tick_def ticked_def emit_def)

lemma ticked_current_time [simp]: "current_time (ticked t) = current_time t - 1"
  by (simp add: ticked_def)

lemma after_tick_current_time [simp]: "current_time (after_tick t) = current_time t - 1"
  by (simp add: after_tick_def emit_def)

lemma tick_Ok:
  assumes "active_duration t \<noteq> 0"
  shows "tick t = Ok (after_tick t)"
proof -
  have "active_duration (ticked t) \<noteq> 0"
    using assms by (simp add: same_period_active_duration [OF same_period_ticked])
  from update_time_Ok [OF this] show ?thesis
    by (simp add: tick_ticked after_tick_def)
qed

lemma tick_Raised:
  assumes "active_duration t = 0"
  shows "tick t = Raised ZeroDivisionError (ticked t)"
proof -
  have "active_duration (ticked t) = 0"
    using assms by (simp add: same_period_active_duration [OF same_period_ticked])
  from update_time_Raised [OF this] show ?thesis
    by (simp add: tick_ticked)
qed

lemma elapsed_fraction_same_period:
  "same_period t t' \<Longrightarrow>
   elapsed_fraction t' =
     (if is_work_period t
      then of_int (work_duration t - current_time t') / of_int (work_duration t)
      else 1 - of_int (current_time t') / of_int (active_duration t))"
  by (simp add: elapsed_fraction_def same_period_active_duration) (simp add: same_period_def)

lemma elapsed_fraction_mono:
  assumes "same_period t t'" "0 < active_duration t" "current_time t' \<le> current_time t"
  shows "elapsed_fraction t \<le> elapsed_fraction t'"
proof (cases "is_work_period t")
  case True
  then have w: "0 < work_duration t" using assms(2) by (simp add: active_duration_def)
  then have "(of_int (work_duration t - current_time t) :: rat) / of_int (work_duration t)
      \<le> of_int (work_duration t - current_time t') / of_int (work_duration t)"
    using assms(3) by (intro divide_right_mono) simp_all
  then show ?thesis
    using True by (simp add: elapsed_fraction_same_period [OF assms(1)]) (simp add: elapsed_fraction_def)
next
  case False
  have "(of_int (current_time t') :: rat) / of_int (active_duration t)
      \<le> of_int (current_time t) / of_int (active_duration t)"
    using assms(2,3) by (intro divide_right_mono) simp_all
  then show ?thesis
    using False by (simp add: elapsed_fraction_same_period [OF assms(1)]) (simp add: elapsed_fraction_def)
qed

lemma elapsed_fraction_at_zero:
  assumes "active_duration t \<noteq> 0" "current_time t = 0"
  shows "elapsed_fraction t = 1"
  using assms by (auto simp: elapsed_fraction_def active_duration_def split: if_splits)

lemma elapsed_fraction_le_1:
  assumes "0 < active_duration t" "0 \<le> current_time t"
  shows "elapsed_fraction t \<le> 1"
proof (cases "is_work_period t")
  case True
  then have w: "0 < work_duration t" using assms(1) by (simp add: active_duration_def)
  have "(of_int (work_duration t - current_time t) :: rat) \<le> of_int (work_duration t)"
    using assms(2) by simp
  then show ?thesis using True w by (simp add: elapsed_fraction_def)
next
  case False
  have "(0::rat) \<le> of_int (current_time t) / of_int (active_duration t)"
    using assms by simp
  then show ?thesis using False by (simp add: elapsed_fraction_def)
qed

lemma fractions_append: "fractions (xs @ ys) = fractions xs @ fractions ys"
  by (induction xs rule: fractions.induct) simp_all

lemma after_tick_emitted:
  "emitted (after_tick t) = emitted t @
     (if current_time t = 61 \<and> \<not> is_work_period t then [notify_user_signal] else []) @
     [update_signal (format_duration (current_time t - 1)) (elapsed_fraction (after_tick t))]"
proof -
  have "elapsed_fraction (after_tick t) = elapsed_fraction (ticked t)"
    by (simp add: elapsed_fraction_def active_duration_def after_tick_def emit_def)
  then show ?thesis
    by (simp add: after_tick_def emit_def ticked_def)
qed

lemma countdown_stop:
  "\<not> (0 < current_time t \<and> is_running t) \<Longrightarrow> countdown t = Ok t"
  by (subst countdown.simps) auto

lemma countdown_step:
  "0 < current_time t \<Longrightarrow> is_running t \<Longrightarrow> active_duration t \<noteq> 0 \<Longrightarrow>
   countdown t = countdown (after_tick t)"
  by (subst countdown.simps) (simp add: tick_Ok)

lemma countdown_runs:
  assumes "is_running t" "0 < active_duration t" "0 \<le> current_time t"
  shows "\<exists>t' es. countdown t = Ok t' \<and> same_period t t' \<and> current_time t' = 0 \<and>
       clock t' = clock t + nat (current_time t) \<and>
       emitted t' = emitted t @ es \<and>
       count_list es notify_user_signal =
         (if \<not> is_work_period t \<and> 60 < current_time t then 1 else 0) \<and>
       sorted (fractions es) \<and>
       (\<forall>f \<in> set (fractions es). elapsed_fraction t \<le> f \<and> f \<le> 1) \<and>
       (0 < current_time t \<longrightarrow> fractions es \<noteq> [] \<and> last (fractions es) = 1)"
  using assms
proof (induction t rule: countdown.induct)
  case (1 t)
  show ?case
  proof (cases "0 < current_time t")
    case False
    with "1.prems" have z: "current_time t = 0" by simp
    have "countdown t = Ok t" using False by (simp add: countdown_stop)
    then show ?thesis using z by simp
  next
    case True
    let ?t1 = "after_tick t"
    have ne: "active_duration t \<noteq> 0" using "1.prems"(2) by simp
    have sp: "same_period t ?t1" by simp
    have tk: "tick t = Ok ?t1" using ne by (rule tick_Ok)
    have r1: "is_running ?t1" using sp "1.prems"(1) by (simp add: same_period_def)
    have d1: "0 < active_duration ?t1"
      using "1.prems"(2) by (simp add: same_period_active_duration [OF sp])
    have c1: "0 \<le> current_time ?t1" using True by simp
    from "1.IH" [OF _ tk r1 d1 c1] True "1.prems"(1)
    obtain t' es where
      cd: "countdown ?t1 = Ok t'" and sp': "same_period ?t1 t'" and z: "current_time t' = 0"
      and ck: "clock t' = clock ?t1 + nat (current_time ?t1)"
      and em: "emitted t' = emitted ?t1 @ es"
      and nt: "count_list es notify_user_signal =
         (if \<not> is_work_period ?t1 \<and> 60 < current_time ?t1 then 1 else 0)"
      and so: "sorted (fractions es)"
      and bd: "\<forall>f \<in> set (fractions es). elapsed_fraction ?t1 \<le> f \<and> f \<le> 1"
      and la: "0 < current_time ?t1 \<longrightarrow> fractions es \<noteq> [] \<and> last (fractions es) = 1"
      by blast
    let ?n = "if current_time t = 61 \<and> \<not> is_work_period t then [notify_user_signal] else []"
    let ?u = "update_signal (format_duration (current_time t - 1)) (elapsed_fraction ?t1)"
    let ?es = "?n @ [?u] @ es"
    have mono: "elapsed_fraction t \<le> elapsed_fraction ?t1"
      using sp "1.prems"(2) by (rule elapsed_fraction_mono) simp
    have le1: "elapsed_fraction ?t1 \<le> 1"
      using d1 c1 by (rule elapsed_fraction_le_1)
    have fr: "fractions ?es = elapsed_fraction ?t1 # fractions es"
      by (simp add: fractions_append)
    have wp: "is_work_period ?t1 = is_work_period t"
      using sp by (simp add: same_period_def)
    have "countdown t = Ok t'"
      using countdown_step [OF True "1.prems"(1) ne] cd by simp
    moreover have "same_period t t'" using sp sp' by (rule same_period_trans)
    moreover have "clock t' = clock t + nat (current_time t)"
      using ck True by (simp add: after_tick_def emit_def ticked_def nat_diff_distrib)
    moreover have "emitted t' = emitted t @ ?es"
      using em by (simp add: after_tick_emitted)
    moreover have "count_list ?es notify_user_signal =
         (if \<not> is_work_period t \<and> 60 < current_time t then 1 else 0)"
      using nt wp by (auto simp: count_list_append)
    moreover have "sorted (fractions ?es)"
      using so bd by (simp add: fr)
    moreover have "\<forall>f \<in> set (fractions ?es). elapsed_fraction t \<le> f \<and> f \<le> 1"
      using bd mono le1 by (auto simp: fr)
    moreover have "fractions ?es \<noteq> [] \<and> last (fractions ?es) = 1"
    proof (cases "0 < current_time ?t1")
      case True
      with la show ?thesis by (simp add: fr)
    next
      case False
      with c1 have z1: "current_time ?t1 = 0" by simp
      have "countdown ?t1 = Ok ?t1" using False by (simp add: countdown_stop)
      with cd em have "es = []" by simp
      moreover have "elapsed_fraction ?t1 = 1"
        using d1 z1 by (intro elapsed_fraction_at_zero) simp_all
      ultimately show ?thesis by (simp add: fr)
    qed
    ultimately show ?thesis using z by blast
  qed
qed

lemma countdown_same_period: "same_period t (state_of (countdown t))"
proof (induction t rule: countdown.induct)
  case (1 t)
  show ?case
  proof (cases "0 < current_time t \<and> is_running t")
    case False
    then show ?thesis by (simp add: countdown_stop state_of_def)
  next
    case True
    show ?thesis
    proof (cases "active_duration t = 0")
      case z: True
      have "countdown t = Raised ZeroDivisionError (ticked t)"
        using True by (subst countdown.simps) (simp add: tick_Raised [OF z])
      then show ?thesis by (simp add: state_of_def)
    next
      case nz: False
      have "same_period (after_tick t) (state_of (countdown (after_tick t)))"
        using True tick_Ok [OF nz] by (intro "1.IH") simp_all
      moreover have "countdown t = countdown (after_tick t)"
        using True nz by (simp add: countdown_step)
      ultimately show ?thesis
        using same_period_trans [OF same_period_after_tick] by simp
    qed
  qed
qed

lemma countdown_current_time_le:
  "0 \<le> current_time t \<Longrightarrow> active_duration t \<noteq> 0 \<Longrightarrow>
   0 \<le> current_time (state_of (countdown t)) \<and>
   current_time (state_of (countdown t)) \<le> current_time t"
proof (induction t rule: countdown.induct)
  case (1 t)
  show ?case
  proof (cases "0 < current_time t \<and> is_running t")
    case False
    then show ?thesis using "1.prems" by (simp add: countdown_stop state_of_def)
  next
    case True
    have tk: "tick t = Ok (after_tick t)" using "1.prems"(2) by (rule tick_Ok)
    have "active_duration (after_tick t) \<noteq> 0"
      using "1.prems"(2) by (simp add: same_period_active_duration [OF same_period_after_tick])
    with "1.IH" [OF True tk] True
    have "0 \<le> current_time (state_of (countdown (after_tick t))) \<and>
       current_time (state_of (countdown (after_tick t))) \<le> current_time (after_tick t)"
      by simp
    moreover have "countdown t = countdown (after_tick t)"
      using True "1.prems"(2) by (simp add: countdown_step)
    ultimately show ?thesis by simp
  qed
qed

lemma run_timer_state:
  "state_of (run_timer t) =
     (case countdown t of
        Ok t1 \<Rightarrow> if current_time t1 = 0 \<and> is_running t1
                 then state_of (switch_period (emit finish_signal t1)) else t1
      | Raised e t1 \<Rightarrow> t1
      | Blocked t1 \<Rightarrow> t1)"
  by (simp add: run_timer_def and_then_def state_of_def split: outcome.splits)

subsection \<open>reset\<close>

text \<open>
  Claim C6. From every controller state (the work duration is not zero, as the data
  model has it), \<open>reset\<close> returns normally with \<open>current_time\<close> equal to the work
  duration, \<open>session_count\<close> zero and \<open>is_work_period\<close> true, and with exactly one
  \<open>update_signal\<close> appended to the emitted signals; \<open>is_running\<close>, the history, the three
  durations, the goal and everything else are as before.
\<close>

theorem reset_effect:
  assumes "work_duration t \<noteq> 0"
  shows "reset t =
     Ok (t\<lparr>current_time := work_duration t, session_count := 0, is_work_period := True,
           emitted := emitted t @ [update_signal (format_duration (work_duration t)) 0]\<rparr>)"
  using assms
  by (simp add: reset_def update_time_Ok active_duration_def elapsed_fraction_def emit_def)

theorem reset_effect_witness:
  "work_duration running_timer \<noteq> 0 \<and>
   reset running_timer =
     Ok (running_timer\<lparr>current_time := work_duration running_timer, session_count := 0,
           is_work_period := True,
           emitted := emitted running_timer @
             [update_signal (format_duration (work_duration running_timer)) 0]\<rparr>)"
proof -
  have h: "work_duration running_timer \<noteq> 0"
    by code_simp
  show ?thesis
    using h reset_effect [OF h] by blast
qed

subsection \<open>toggle\<close>

text \<open>
  Claim C8. In every state with \<open>is_running\<close> false, \<open>toggle\<close> first sets \<open>is_running\<close>
  to true and then raises \<open>TypeError\<close>: the state it leaves behind differs from the
  state before in \<open>is_running\<close> only, so no countdown thread has been started.
\<close>

theorem toggle_stopped_raises:
  assumes "\<not> is_running t"
  shows "toggle t = Raised TypeError (t\<lparr>is_running := True\<rparr>) \<and>
         is_running (state_of (toggle t)) \<and>
         pending_threads (state_of (toggle t)) = pending_threads t"
  using assms by (simp add: toggle_def state_of_def)

theorem toggle_stopped_raises_witness:
  "\<not> is_running example_timer \<and>
   toggle example_timer = Raised TypeError (example_timer\<lparr>is_running := True\<rparr>) \<and>
   is_running (state_of (toggle example_timer)) \<and>
   pending_threads (state_of (toggle example_timer)) = pending_threads example_timer"
proof -
  have h: "\<not> is_running example_timer"
    by code_simp
  show ?thesis
    using h toggle_stopped_raises [OF h] by blast
qed

text \<open>
  Claim C2, evaluated at a paused timer. The timer is paused with 1499 of 1500 seconds
  left. \<open>toggle\<close> raises \<open>TypeError\<close> and starts no thread, so nothing counts down
  afterwards: running the pending threads leaves \<open>current_time\<close> at 1499.
\<close>

theorem toggle_paused_does_not_resume:
  "\<not> is_running paused_timer \<and> is_work_period paused_timer \<and>
   current_time paused_timer = 1499 \<and> work_duration paused_timer = 1500 \<and>
   toggle paused_timer = Raised TypeError (paused_timer\<lparr>is_running := True\<rparr>) \<and>
   pending_threads (state_of (toggle paused_timer)) = 0 \<and>
   run_threads 1 (state_of (toggle paused_timer)) = state_of (toggle paused_timer)"
  by code_simp

subsection \<open>start\_timer\<close>




subsection \<open>The long break\<close>

text \<open>
  Claim C1, evaluated on the worked example (work 2, short break 1, long break 3). After
  \<open>start_timer\<close> and seven completed periods the timer is in its fourth break, with
  \<open>session_count\<close> seven, and the duration given to that break is the short one.
\<close>

theorem fourth_break_is_short:
  "\<not> is_work_period (run_threads 7 running_timer) \<and>
   session_count (run_threads 7 running_timer) = 7 \<and>
   [entry_type e. e \<leftarrow> session_history (run_threads 7 running_timer)] =
     [''Work'', ''Break'', ''Work'', ''Break'', ''Work'', ''Break'', ''Work'', ''Break''] \<and>
   current_time (run_threads 7 running_timer) = 1 \<and>
   short_break_duration (run_threads 7 running_timer) = 1 \<and>
   long_break_duration (run_threads 7 running_timer) = 3"
  by code_simp

lemma parity_switch:
  assumes "parity_inv t"
  shows "parity_inv (state_of (switch_period t)) \<and> break_is_short (state_of (switch_period t))"
proof -
  have odd4: "\<not> is_work_period t \<or> (session_count t + 1) mod 4 \<noteq> 0"
    using assms unfolding parity_inv_def by presburger
  have ct: "is_work_period t \<Longrightarrow> current_time (switched t) = short_break_duration t"
    using odd4 by (simp add: switched_def)
  show ?thesis
    using assms odd4 ct
    by (auto simp add: switch_period_state parity_inv_def break_is_short_def)
qed

lemma parity_switch_periods:
  "parity_inv t \<Longrightarrow> break_is_short t \<Longrightarrow>
   parity_inv (state_of (switch_periods n t)) \<and> break_is_short (state_of (switch_periods n t))"
proof (induction n arbitrary: t)
  case 0
  then show ?case by (simp add: state_of_def)
next
  case (Suc n)
  show ?case
  proof (cases "switch_period t")
    case (Ok t1)
    then have "state_of (switch_period t) = t1" by (simp add: state_of_def)
    with parity_switch [OF Suc.prems(1)] have "parity_inv t1" "break_is_short t1" by simp_all
    from Suc.IH [OF this] show ?thesis using Ok by (simp add: and_then_def)
  next
    case (Raised e t1)
    then have "state_of (switch_period t) = t1" by (simp add: state_of_def)
    with parity_switch [OF Suc.prems(1)] have "parity_inv t1" "break_is_short t1" by simp_all
    then show ?thesis using Raised by (simp add: and_then_def state_of_def)
  next
    case (Blocked t1)
    then have "state_of (switch_period t) = t1" by (simp add: state_of_def)
    with parity_switch [OF Suc.prems(1)] have "parity_inv t1" "break_is_short t1" by simp_all
    then show ?thesis using Blocked by (simp add: and_then_def state_of_def)
  qed
qed

text \<open>
  Claim C9. From the state left by \<open>reset\<close>, after any number of period transitions,
  \<open>is_work_period\<close> holds exactly when \<open>session_count\<close> is even. So in every break
  \<open>session_count\<close> is odd, \<open>session_count mod 4\<close> is not zero, and the duration that the
  transition gave to the break is the short one.
\<close>

theorem break_never_long:
  "(is_work_period (state_of (switch_periods n (state_of (reset t)))) \<longleftrightarrow>
      even (session_count (state_of (switch_periods n (state_of (reset t)))))) \<and>
   (\<not> is_work_period (state_of (switch_periods n (state_of (reset t)))) \<longrightarrow>
      odd (session_count (state_of (switch_periods n (state_of (reset t))))) \<and>
      session_count (state_of (switch_periods n (state_of (reset t)))) mod 4 \<noteq> 0 \<and>
      current_time (state_of (switch_periods n (state_of (reset t)))) =
        short_break_duration (state_of (switch_periods n (state_of (reset t)))))"
proof -
  have "parity_inv (state_of (reset t))" "break_is_short (state_of (reset t))"
    by (simp_all add: reset_state parity_inv_def break_is_short_def Let_def)
  from parity_switch_periods [OF this, of n] show ?thesis
    by (auto simp: parity_inv_def break_is_short_def)
qed

theorem break_never_long_witness:
  "\<not> is_work_period (state_of (switch_periods 7 (state_of (reset example_timer)))) \<and>
   session_count (state_of (switch_periods 7 (state_of (reset example_timer)))) = 7 \<and>
   odd (session_count (state_of (switch_periods 7 (state_of (reset example_timer))))) \<and>
   session_count (state_of (switch_periods 7 (state_of (reset example_timer)))) mod 4 \<noteq> 0 \<and>
   current_time (state_of (switch_periods 7 (state_of (reset example_timer)))) =
     short_break_duration (state_of (switch_periods 7 (state_of (reset example_timer))))"
proof -
  have h: "\<not> is_work_period (state_of (switch_periods 7 (state_of (reset example_timer))))"
    by code_simp
  have c: "session_count (state_of (switch_periods 7 (state_of (reset example_timer)))) = 7"
    by code_simp
  show ?thesis
    using h c break_never_long [of 7 example_timer] by auto
qed

subsection \<open>The elapsed fraction\<close>

text \<open>
  Claim C4. In a running period with a positive duration, every loop iteration returns
  normally and ends by emitting \<open>update_signal\<close> with the fraction the specification
  gives for the new \<open>current_time\<close>; that fraction is not below the fraction of the
  state before, and it is exactly 1 when \<open>current_time\<close> has reached zero. For the
  countdown as a whole: the fractions emitted until \<open>current_time\<close> is zero are sorted,
  none is below the fraction at the start or above 1, and the last one is 1.
\<close>

theorem elapsed_fraction_rises:
  assumes "is_running t" "0 < active_duration t" "0 < current_time t"
  shows "(\<exists>t1. tick t = Ok t1 \<and> current_time t1 = current_time t - 1 \<and>
            last (emitted t1) =
              update_signal (format_duration (current_time t1)) (elapsed_fraction t1) \<and>
            elapsed_fraction t \<le> elapsed_fraction t1 \<and>
            (current_time t1 = 0 \<longrightarrow> elapsed_fraction t1 = 1)) \<and>
         (\<exists>t' es. countdown t = Ok t' \<and> current_time t' = 0 \<and>
            emitted t' = emitted t @ es \<and> sorted (fractions es) \<and>
            (\<forall>f \<in> set (fractions es). elapsed_fraction t \<le> f \<and> f \<le> 1) \<and>
            last (fractions es) = 1)"
proof (rule conjI)
  have ne: "active_duration t \<noteq> 0" using assms(2) by simp
  have d1: "active_duration (after_tick t) \<noteq> 0"
    using ne by (simp add: same_period_active_duration [OF same_period_after_tick])
  have "tick t = Ok (after_tick t)" using ne by (rule tick_Ok)
  moreover have "current_time (after_tick t) = current_time t - 1" by simp
  moreover have "last (emitted (after_tick t)) =
      update_signal (format_duration (current_time (after_tick t))) (elapsed_fraction (after_tick t))"
    by (simp add: after_tick_emitted)
  moreover have "elapsed_fraction t \<le> elapsed_fraction (after_tick t)"
    using same_period_after_tick assms(2) by (rule elapsed_fraction_mono) simp
  moreover have "current_time (after_tick t) = 0 \<longrightarrow> elapsed_fraction (after_tick t) = 1"
    using d1 by (auto intro: elapsed_fraction_at_zero)
  ultimately show "\<exists>t1. tick t = Ok t1 \<and> current_time t1 = current_time t - 1 \<and>
            last (emitted t1) =
              update_signal (format_duration (current_time t1)) (elapsed_fraction t1) \<and>
            elapsed_fraction t \<le> elapsed_fraction t1 \<and>
            (current_time t1 = 0 \<longrightarrow> elapsed_fraction t1 = 1)"
    by blast
next
  have "0 \<le> current_time t" using assms(3) by simp
  from countdown_runs [OF assms(1,2) this] assms(3)
  show "\<exists>t' es. countdown t = Ok t' \<and> current_time t' = 0 \<and>
            emitted t' = emitted t @ es \<and> sorted (fractions es) \<and>
            (\<forall>f \<in> set (fractions es). elapsed_fraction t \<le> f \<and> f \<le> 1) \<and>
            last (fractions es) = 1"
    by blast
qed

theorem elapsed_fraction_rises_witness:
  "is_running running_timer \<and> 0 < active_duration running_timer \<and>
   0 < current_time running_timer \<and>
   (\<exists>t1. tick running_timer = Ok t1 \<and> current_time t1 = current_time running_timer - 1 \<and>
      last (emitted t1) =
        update_signal (format_duration (current_time t1)) (elapsed_fraction t1) \<and>
      elapsed_fraction running_timer \<le> elapsed_fraction t1 \<and>
      (current_time t1 = 0 \<longrightarrow> elapsed_fraction t1 = 1)) \<and>
   (\<exists>t' es. countdown running_timer = Ok t' \<and> current_time t' = 0 \<and>
      emitted t' = emitted running_timer @ es \<and> sorted (fractions es) \<and>
      (\<forall>f \<in> set (fractions es). elapsed_fraction running_timer \<le> f \<and> f \<le> 1) \<and>
      last (fractions es) = 1)"
proof -
  have h1: "is_running running_timer" by code_simp
  have h2: "0 < active_duration running_timer" by code_simp
  have h3: "0 < current_time running_timer" by code_simp
  show ?thesis
    using h1 h2 h3 elapsed_fraction_rises [OF h1 h2 h3] by blast
qed

subsection \<open>The one-minute notification\<close>

text \<open>
  Claim C5, as stated, fails: a break of 60 seconds runs from start to end without
  \<open>notify_user_signal\<close>. \<open>current_time\<close> is compared with 60 only after it has been
  decremented, so a break that starts with 60 seconds or fewer never meets the test.
\<close>

theorem notify_counterexample:
  "\<not> is_work_period (run_threads 1 minute_timer) \<and>
   current_time (run_threads 1 minute_timer) = 60 \<and>
   is_work_period (run_threads 2 minute_timer) \<and>
   session_count (run_threads 2 minute_timer) = 2 \<and>
   count_list (emitted (run_threads 2 minute_timer)) notify_user_signal = 0"
  by code_simp

text \<open>
  Claim C5, amended. One loop iteration emits \<open>notify_user_signal\<close> exactly when it is
  in a break and takes \<open>current_time\<close> from 61 to 60. A countdown that runs to zero
  emits it exactly once when it is in a break and starts above 60 seconds, and never
  otherwise: not in a break of 60 seconds or fewer, and not in a work period.
\<close>

theorem notify_once:
  assumes "is_running t" "0 < active_duration t" "0 \<le> current_time t"
  shows "count_list (emitted (state_of (tick t))) notify_user_signal =
           count_list (emitted t) notify_user_signal +
             (if \<not> is_work_period t \<and> current_time t = 61 then 1 else 0) \<and>
         (\<exists>t' es. countdown t = Ok t' \<and> current_time t' = 0 \<and>
            emitted t' = emitted t @ es \<and>
            count_list es notify_user_signal =
              (if \<not> is_work_period t \<and> 60 < current_time t then 1 else 0))"
proof (rule conjI)
  have "active_duration t \<noteq> 0" using assms(2) by simp
  then have "state_of (tick t) = after_tick t" by (simp add: tick_Ok state_of_def)
  then show "count_list (emitted (state_of (tick t))) notify_user_signal =
           count_list (emitted t) notify_user_signal +
             (if \<not> is_work_period t \<and> current_time t = 61 then 1 else 0)"
    by (simp add: after_tick_emitted count_list_append)
next
  from countdown_runs [OF assms]
  show "\<exists>t' es. countdown t = Ok t' \<and> current_time t' = 0 \<and>
            emitted t' = emitted t @ es \<and>
            count_list es notify_user_signal =
              (if \<not> is_work_period t \<and> 60 < current_time t then 1 else 0)"
    by blast
qed

theorem notify_once_witness:
  "is_running break_timer \<and> 0 < active_duration break_timer \<and>
   \<not> is_work_period break_timer \<and> current_time break_timer = 61 \<and>
   count_list (emitted (state_of (tick break_timer))) notify_user_signal =
     count_list (emitted break_timer) notify_user_signal + 1 \<and>
   (\<exists>t' es. countdown break_timer = Ok t' \<and> current_time t' = 0 \<and>
      emitted t' = emitted break_timer @ es \<and> count_list es notify_user_signal = 1)"
proof -
  have h1: "is_running break_timer" by code_simp
  have h2: "0 < active_duration break_timer" by code_simp
  have b: "\<not> is_work_period break_timer" by code_simp
  have c: "current_time break_timer = 61" by code_simp
  have h3: "0 \<le> current_time break_timer" using c by simp
  show ?thesis
    using h1 h2 b c notify_once [OF h1 h2 h3] by simp
qed

subsection \<open>Bounds on \<open>current_time\<close>\<close>

lemma timer_inv_active_pos: "timer_inv t \<Longrightarrow> 0 < active_duration t"
  by (simp add: timer_inv_def active_duration_def)

lemma timer_inv_same_period:
  "timer_inv t \<Longrightarrow> same_period t t' \<Longrightarrow> 0 \<le> current_time t' \<Longrightarrow>
   current_time t' \<le> current_time t \<Longrightarrow> timer_inv t'"
  using same_period_active_duration [of t t']
  by (simp add: timer_inv_def same_period_def)

lemma inv_reset:
  "0 < work_duration t \<Longrightarrow> 0 < short_break_duration t \<Longrightarrow> 0 < long_break_duration t \<Longrightarrow>
   timer_inv (state_of (reset t))"
  by (simp add: reset_state timer_inv_def active_duration_def Let_def)

lemma inv_init: "0 < w \<Longrightarrow> 0 < s \<Longrightarrow> 0 < l \<Longrightarrow> timer_inv (state_of (init w s l))"
  unfolding init_def by (rule inv_reset) simp_all

lemma inv_set_durations:
  "0 < w \<Longrightarrow> 0 < s \<Longrightarrow> 0 < l \<Longrightarrow> timer_inv (state_of (set_durations w s l t))"
  unfolding set_durations_def by (rule inv_reset) simp_all

lemma inv_start_timer:
  assumes "timer_inv t"
  shows "timer_inv (state_of (start_timer g t))"
proof -
  have "active_duration t \<noteq> 0"
    using timer_inv_active_pos [OF assms] by simp
  from start_timer_outcome [OF this, of g] assms show ?thesis
    by (auto simp: state_of_def start_thread_with_lock_def thread_start_def timer_inv_def
        active_duration_def split: if_splits)
qed

lemma inv_threads_lock:
  "timer_inv (t\<lparr>pending_threads := n, timer_lock := b\<rparr>) = timer_inv t"
  "timer_inv (t\<lparr>timer_lock := b\<rparr>) = timer_inv t"
  "timer_inv (thread_start t) = timer_inv t"
  by (simp_all add: timer_inv_def active_duration_def thread_start_def)

lemma inv_start_thread_with_lock:
  "timer_inv t \<Longrightarrow> timer_inv (state_of (start_thread_with_lock t))"
  by (simp add: start_thread_with_lock_def state_of_def inv_threads_lock)

lemma inv_toggle: "timer_inv t \<Longrightarrow> timer_inv (state_of (toggle t))"
  by (auto simp: toggle_def state_of_def timer_inv_def active_duration_def Let_def
      split: if_splits)

lemma inv_tick:
  assumes "timer_inv t" "0 < current_time t"
  shows "timer_inv (state_of (tick t))"
proof -
  have "active_duration t \<noteq> 0"
    using timer_inv_active_pos [OF assms(1)] by simp
  then have "state_of (tick t) = after_tick t"
    by (simp add: tick_Ok state_of_def)
  moreover have "timer_inv (after_tick t)"
    using assms(1) same_period_after_tick by (rule timer_inv_same_period) (use assms(2) in simp_all)
  ultimately show ?thesis by simp
qed

lemma inv_emit: "timer_inv (emit sg t) = timer_inv t"
  by (simp add: timer_inv_def emit_def active_duration_def)

lemma inv_switch_period:
  assumes "timer_inv t"
  shows "timer_inv (state_of (switch_period t))"
proof -
  have pos: "0 < active_duration (switched t)"
    using assms by (simp add: timer_inv_def active_duration_def)
  then have "state_of (switch_period t) = after_switch t"
    by (simp add: switch_period_state)
  moreover have "active_duration (after_switch t) = active_duration (switched t)"
    by (simp add: active_duration_def)
  ultimately show ?thesis
    using assms pos by (simp add: timer_inv_def switched_current_time)
qed

lemma inv_countdown:
  assumes "timer_inv t"
  shows "timer_inv (state_of (countdown t))"
proof -
  have "active_duration t \<noteq> 0" using timer_inv_active_pos [OF assms] by simp
  moreover have "0 \<le> current_time t" using assms by (simp add: timer_inv_def)
  ultimately have "0 \<le> current_time (state_of (countdown t)) \<and>
      current_time (state_of (countdown t)) \<le> current_time t"
    by (rule countdown_current_time_le [rotated])
  with timer_inv_same_period [OF assms countdown_same_period] show ?thesis by simp
qed

lemma inv_run_timer:
  assumes "timer_inv t"
  shows "timer_inv (state_of (run_timer t))"
proof (cases "countdown t")
  case (Ok t1)
  with inv_countdown [OF assms] have i1: "timer_inv t1" by (simp add: state_of_def)
  then have "timer_inv (state_of (switch_period (emit finish_signal t1)))"
    by (intro inv_switch_period) (simp add: inv_emit)
  with i1 Ok show ?thesis by (simp add: run_timer_state)
next
  case (Raised e t1)
  with inv_countdown [OF assms] have "timer_inv t1" by (simp add: state_of_def)
  then show ?thesis by (simp add: run_timer_state Raised)
next
  case (Blocked t1)
  with inv_countdown [OF assms] have "timer_inv t1" by (simp add: state_of_def)
  then show ?thesis by (simp add: run_timer_state Blocked)
qed

lemma inv_run_thread:
  assumes "timer_inv t"
  shows "timer_inv (run_thread t)"
proof -
  have "timer_inv (t\<lparr>pending_threads := pending_threads t - 1\<rparr>)"
    using assms by (auto simp: timer_inv_def active_duration_def split: if_splits)
  from inv_run_timer [OF this] assms show ?thesis
    by (simp add: run_thread_def)
qed

text \<open>
  Claim C7. In every reachable state the three durations are positive and
  \<open>current_time\<close> lies between zero and the duration of the active period. The proof is
  by induction over the operations, each of which preserves the bounds.
\<close>

theorem reachable_time_bounds:
  assumes "reachable t"
  shows "0 < work_duration t \<and> 0 < short_break_duration t \<and> 0 < long_break_duration t \<and>
         0 \<le> current_time t \<and> current_time t \<le> active_duration t"
proof -
  from assms have "timer_inv t"
  proof (induction rule: reachable.induct)
    case (r_init w s l)
    then show ?case by (rule inv_init)
  next
    case (r_reset t)
    then show ?case by (intro inv_reset) (simp_all add: timer_inv_def)
  next
    case (r_set_durations t w s l)
    then show ?case by (intro inv_set_durations)
  next
    case (r_start_timer t g)
    then show ?case by (intro inv_start_timer)
  next
    case (r_toggle t)
    then show ?case by (intro inv_toggle)
  next
    case (r_tick t)
    then show ?case by (intro inv_tick)
  next
    case (r_switch_period t)
    then show ?case by (intro inv_switch_period) (simp add: inv_emit)
  next
    case (r_run_thread t)
    then show ?case by (intro inv_run_thread)
  next
    case (r_run_timer_enter t)
    then show ?case
      by (auto simp: run_timer_enter_def timer_inv_def active_duration_def split: if_splits)
  next
    case (r_run_timer_leave t)
    then show ?case by (simp add: inv_threads_lock)
  next
    case (r_start_thread_with_lock t)
    then show ?case by (intro inv_start_thread_with_lock)
  qed
  then show ?thesis by (simp add: timer_inv_def)
qed

theorem reachable_time_bounds_witness:
  "reachable (run_thread running_timer) \<and>
   0 \<le> current_time (run_thread running_timer) \<and>
   current_time (run_thread running_timer) \<le> active_duration (run_thread running_timer)"
proof -
  have "reachable example_timer"
    unfolding example_timer_def by (rule r_init) simp_all
  then have "reachable running_timer"
    unfolding running_timer_def by (rule r_start_timer)
  then have r: "reachable (run_thread running_timer)"
    by (rule r_run_thread)
  show ?thesis
    using r reachable_time_bounds [OF r] by blast
qed

subsection \<open>Goals in the history\<close>

lemma run_timer_history:
  "goal (state_of (run_timer t)) = goal t \<and>
   (\<exists>es. session_history (state_of (run_timer t)) = session_history t @ es \<and>
      (\<forall>e \<in> set es. entry_goal e = goal t))"
proof (cases "countdown t")
  case (Ok t1)
  with countdown_same_period [of t] have sp: "same_period t t1" by (simp add: state_of_def)
  then have g: "goal t1 = goal t" and h: "session_history t1 = session_history t"
    by (simp_all add: same_period_def)
  show ?thesis
  proof (cases "current_time t1 = 0 \<and> is_running t1")
    case True
    then have st: "state_of (run_timer t) = state_of (switch_period (emit finish_signal t1))"
      using Ok by (simp add: run_timer_state)
    have "goal (emit finish_signal t1) = goal t"
      "session_history (emit finish_signal t1) = session_history t"
      using g h by (simp_all add: emit_def)
    with switch_period_history [of "emit finish_signal t1"] show ?thesis
      unfolding st by simp
  next
    case False
    then have "state_of (run_timer t) = t1" using Ok by (auto simp: run_timer_state)
    then show ?thesis using g h by simp
  qed
next
  case (Raised e t1)
  with countdown_same_period [of t] have sp: "same_period t t1" by (simp add: state_of_def)
  have "state_of (run_timer t) = t1" using Raised by (simp add: run_timer_state)
  then show ?thesis using sp by (simp add: same_period_def)
next
  case (Blocked t1)
  with countdown_same_period [of t] have sp: "same_period t t1" by (simp add: state_of_def)
  have "state_of (run_timer t) = t1" using Blocked by (simp add: run_timer_state)
  then show ?thesis using sp by (simp add: same_period_def)
qed

lemma run_thread_history:
  "goal (run_thread t) = goal t \<and>
   (\<exists>es. session_history (run_thread t) = session_history t @ es \<and>
      (\<forall>e \<in> set es. entry_goal e = goal t))"
proof (cases "pending_threads t = 0 \<or> timer_lock t")
  case True
  then show ?thesis by (auto simp: run_thread_def)
next
  case False
  then have "run_thread t = state_of (run_timer (t\<lparr>pending_threads := pending_threads t - 1\<rparr>))"
    by (simp add: run_thread_def)
  with run_timer_history [of "t\<lparr>pending_threads := pending_threads t - 1\<rparr>"]
  show ?thesis by simp
qed

lemma run_threads_history:
  "goal (run_threads n t) = goal t \<and>
   (\<exists>es. session_history (run_threads n t) = session_history t @ es \<and>
      (\<forall>e \<in> set es. entry_goal e = goal t))"
proof (induction n arbitrary: t)
  case 0
  then show ?case by simp
next
  case (Suc n)
  from run_thread_history [of t] obtain es1 where
    g1: "goal (run_thread t) = goal t" and
    h1: "session_history (run_thread t) = session_history t @ es1" and
    a1: "\<forall>e \<in> set es1. entry_goal e = goal t"
    by blast
  from Suc.IH [of "run_thread t"] obtain es2 where
    g2: "goal (run_threads n (run_thread t)) = goal (run_thread t)" and
    h2: "session_history (run_threads n (run_thread t)) = session_history (run_thread t) @ es2" and
    a2: "\<forall>e \<in> set es2. entry_goal e = goal (run_thread t)"
    by blast
  have "session_history (run_threads (Suc n) t) = session_history t @ (es1 @ es2)"
    using h1 h2 by simp
  moreover have "\<forall>e \<in> set (es1 @ es2). entry_goal e = goal t"
    using a1 a2 g1 by auto
  moreover have "goal (run_threads (Suc n) t) = goal t"
    using g1 g2 by simp
  ultimately show ?case by blast
qed

text \<open>
  Claim C10. A period transition leaves \<open>goal\<close> as it was and appends one entry, of
  type \<open>Break\<close> or \<open>Work\<close>, that carries it. So after \<open>start_timer g\<close> and any number
  of completed periods, every entry appended since the call carries \<open>g\<close>, the entries
  of the breaks included.
\<close>

theorem entries_carry_goal:
  "goal (state_of (switch_period t)) = goal t \<and>
   session_history (state_of (switch_period t)) =
     session_history t @
       [\<lparr>entry_type = (if is_work_period t then ''Break'' else ''Work''),
         entry_timestamp = clock t, entry_goal = goal t\<rparr>] \<and>
   (\<exists>es. session_history (run_threads n (state_of (start_timer g t))) =
      session_history t @ es \<and> (\<forall>e \<in> set es. entry_goal e = g))"
proof -
  let ?t1 = "state_of (start_timer g t)"
  from run_threads_history [of n ?t1] obtain es where
    h: "session_history (run_threads n ?t1) = session_history ?t1 @ es" and
    a: "\<forall>e \<in> set es. entry_goal e = goal ?t1"
    by blast
  let ?w = "\<lparr>entry_type = ''Work'', entry_timestamp = clock t, entry_goal = g\<rparr>"
  have "session_history (run_threads n ?t1) = session_history t @ (?w # es)"
    using h start_timer_state [of g t] by simp
  moreover have "\<forall>e \<in> set (?w # es). entry_goal e = g"
    using a start_timer_state [of g t] by simp
  ultimately have "\<exists>es. session_history (run_threads n ?t1) = session_history t @ es \<and>
      (\<forall>e \<in> set es. entry_goal e = g)"
    by blast
  with switch_period_history [of t] show ?thesis by blast
qed

theorem entries_carry_goal_witness:
  "map entry_type (session_history (run_threads 3 (state_of (start_timer ''write spec'' example_timer)))) =
     [''Work'', ''Break'', ''Work'', ''Break''] \<and>
   (\<exists>es. session_history (run_threads 3 (state_of (start_timer ''write spec'' example_timer))) =
      session_history example_timer @ es \<and> list_all (\<lambda>e. entry_goal e = ''write spec'') es)"
proof -
  have c: "map entry_type (session_history (run_threads 3 (state_of (start_timer ''write spec'' example_timer)))) =
     [''Work'', ''Break'', ''Work'', ''Break'']"
    by code_simp
  show ?thesis
    using c entries_carry_goal [of example_timer 3 "''write spec''"]
    by (simp add: list_all_iff)
qed

end
